theory Spec2Isabelle
  imports Complex_Main
begin

section \<open>Data model\<close>

text \<open>
  The recommendation script exists in several variants. Two are modelled: the first one
  (\<^verbatim>\<open>src/unnamed/part_000\<close>) and the one that excludes the current song, compares
  resolved URLs and waits for enough visits and clicks (\<^verbatim>\<open>src/unnamed/part_002\<close>). The
  tracking functions and the building of the scores are the same in both.
\<close>

text \<open>
  A song of the catalog. Only the fields read by the tracking and scoring code are kept:
  \<^verbatim>\<open>title\<close>, \<^verbatim>\<open>genres\<close> and \<^verbatim>\<open>spiritualNeeds\<close> (comma separated tag strings) and the
  optional \<^verbatim>\<open>pageUrl\<close> (\<open>None\<close> when the property is missing).
\<close>

record song =
  title :: string
  genres :: string
  spiritualNeeds :: string
  pageUrl :: "string option"

text \<open>
  A plain JavaScript object with numeric values (\<^verbatim>\<open>genreScores\<close>, \<^verbatim>\<open>needScores\<close>,
  \<^verbatim>\<open>clicks\<close>, ...), kept as the list of its entries in the order in which
  \<^verbatim>\<open>for ... in\<close> and \<^verbatim>\<open>Object.values\<close> enumerate them. Numbers are integers; keys are
  tag, title or path strings other than the property names every object inherits.
\<close>

type_synonym jsobj = "(string \<times> int) list"

record behavior =
  pagesVisited :: jsobj
  clicks :: jsobj
  timeSpent :: jsobj

text \<open>
  What the code reads from the browser: \<^verbatim>\<open>window.location.origin\<close>,
  \<^verbatim>\<open>window.location.pathname\<close>, and \<^verbatim>\<open>new URL(x, window.location.origin).href\<close> as the
  function \<open>resolveUrl\<close>, which is \<open>None\<close> where the constructor throws.
\<close>

record browser =
  origin :: string
  pathname :: string
  resolveUrl :: "string \<Rightarrow> string option"

section \<open>Strings\<close>

text \<open>ASCII letters only: \<^verbatim>\<open>toLowerCase\<close> maps \<^verbatim>\<open>A-Z\<close> to \<^verbatim>\<open>a-z\<close>.\<close>

definition lowerChar :: "char \<Rightarrow> char" where
  "lowerChar c =
     (let n = (of_char c :: nat) in if 65 \<le> n \<and> n \<le> 90 then char_of (n + 32) else c)"

definition toLowerCase :: "string \<Rightarrow> string" where
  "toLowerCase s = map lowerChar s"

text \<open>\<^verbatim>\<open>s.split(",")\<close>: the pieces between commas; the empty string gives one empty piece.\<close>

fun splitAcc :: "string \<Rightarrow> string \<Rightarrow> string list" where
  "splitAcc cur [] = [rev cur]"
| "splitAcc cur (c # cs) =
     (if c = CHR '','' then rev cur # splitAcc [] cs else splitAcc (c # cur) cs)"

definition splitComma :: "string \<Rightarrow> string list" where
  "splitComma s = splitAcc [] s"

text \<open>\<^verbatim>\<open>trim\<close> on ASCII white space: tab, line feed, vertical tab, form feed, return, space.\<close>

definition isSpace :: "char \<Rightarrow> bool" where
  "isSpace c = (let n = (of_char c :: nat) in (9 \<le> n \<and> n \<le> 13) \<or> n = 32)"

definition trim :: "string \<Rightarrow> string" where
  "trim s = rev (dropWhile isSpace (rev (dropWhile isSpace s)))"

text \<open>\<^verbatim>\<open>x.toLowerCase().split(",").map(g => g.trim())\<close>\<close>

definition tagsOf :: "string \<Rightarrow> string list" where
  "tagsOf s = map trim (splitComma (toLowerCase s))"

section \<open>Objects as ordered entry lists\<close>

text \<open>
  JavaScript enumerates the own string keys of an ordinary object with the array indices
  first (canonical decimal numerals below \<open>2^32 - 1\<close>, in ascending numeric order) and
  then every other key in the order of its creation.
\<close>

definition isDigit :: "char \<Rightarrow> bool" where
  "isDigit c = (let n = (of_char c :: nat) in 48 \<le> n \<and> n \<le> 57)"

definition decValue :: "string \<Rightarrow> int" where
  "decValue s = foldl (\<lambda>n c. 10 * n + ((of_char c :: int) - 48)) 0 s"

definition isArrayIndex :: "string \<Rightarrow> bool" where
  "isArrayIndex k =
     (case k of
        [] \<Rightarrow> False
      | c # cs \<Rightarrow> list_all isDigit k \<and> (if c = CHR ''0'' then cs = [] else True)
                  \<and> decValue k < 4294967295)"

fun insIndex :: "string \<Rightarrow> int \<Rightarrow> jsobj \<Rightarrow> jsobj" where
  "insIndex k v [] = [(k, v)]"
| "insIndex k v (e # es) =
     (if isArrayIndex (fst e) \<and> decValue (fst e) < decValue k
      then e # insIndex k v es else (k, v) # e # es)"

text \<open>\<^verbatim>\<open>obj[k]\<close> as a number or \<^verbatim>\<open>undefined\<close>, and \<^verbatim>\<open>obj[k] || 0\<close>.\<close>

definition objGet :: "jsobj \<Rightarrow> string \<Rightarrow> int option" where
  "objGet obj k = map_of obj k"

definition orZero :: "jsobj \<Rightarrow> string \<Rightarrow> int" where
  "orZero obj k = (case objGet obj k of None \<Rightarrow> 0 | Some v \<Rightarrow> v)"

text \<open>\<^verbatim>\<open>obj[k] = v\<close>: an existing key keeps its place, a new one is placed as above.\<close>

definition objSet :: "jsobj \<Rightarrow> string \<Rightarrow> int \<Rightarrow> jsobj" where
  "objSet obj k v =
     (case objGet obj k of
        Some _ \<Rightarrow> map (\<lambda>e. if fst e = k then (k, v) else e) obj
      | None \<Rightarrow> if isArrayIndex k then insIndex k v obj else obj @ [(k, v)])"

text \<open>\<^verbatim>\<open>obj[k] = (obj[k] || 0) + d\<close>\<close>

definition objAdd :: "int \<Rightarrow> jsobj \<Rightarrow> string \<Rightarrow> jsobj" where
  "objAdd d obj k = objSet obj k (orZero obj k + d)"

text \<open>\<^verbatim>\<open>xs[i]\<close> on an array: \<^verbatim>\<open>undefined\<close> (here \<open>None\<close>) out of range.\<close>

definition arrayGet :: "'a list \<Rightarrow> nat \<Rightarrow> 'a option" where
  "arrayGet xs i = (if i < length xs then Some (xs ! i) else None)"

section \<open>Tracking\<close>

text \<open>The invariant of the behaviour record: no count is negative.\<close>

definition nonNegative :: "jsobj \<Rightarrow> bool" where
  "nonNegative obj = list_all (\<lambda>e. 0 \<le> snd e) obj"

definition wfBehavior :: "behavior \<Rightarrow> bool" where
  "wfBehavior b = (nonNegative (pagesVisited b) \<and> nonNegative (clicks b) \<and> nonNegative (timeSpent b))"

text \<open>
  \<^verbatim>\<open>trackPageVisit\<close>, \<^verbatim>\<open>trackClick\<close> and \<^verbatim>\<open>trackTimeSpent\<close> on the record that the source
  keeps in \<^verbatim>\<open>userBehavior\<close>; the page is \<^verbatim>\<open>window.location.pathname\<close>, \<open>now\<close> is
  \<^verbatim>\<open>Date.now()\<close> and \<open>start\<close> is \<^verbatim>\<open>window.pageStartTime\<close>, both in milliseconds.
\<close>

definition trackPageVisit :: "string \<Rightarrow> behavior \<Rightarrow> behavior" where
  "trackPageVisit page b =
     b\<lparr>pagesVisited := objSet (pagesVisited b) page (orZero (pagesVisited b) page + 1)\<rparr>"

definition trackClick :: "string \<Rightarrow> behavior \<Rightarrow> behavior" where
  "trackClick songTitle b =
     (if orZero (clicks b) songTitle \<noteq> 0
      then b\<lparr>clicks := objSet (clicks b) songTitle (orZero (clicks b) songTitle + 1)\<rparr>
      else b\<lparr>clicks := objSet (clicks b) songTitle 1\<rparr>)"

definition trackTimeSpent :: "int \<Rightarrow> int \<Rightarrow> string \<Rightarrow> behavior \<Rightarrow> behavior" where
  "trackTimeSpent now start page b =
     (let elapsed = (now - start) div 1000
      in b\<lparr>timeSpent := objSet (timeSpent b) page (orZero (timeSpent b) page + elapsed)\<rparr>)"

section \<open>Scoring\<close>

text \<open>\<^verbatim>\<open>songs.filter(song => song.pageUrl)\<close>: the URL is a non-empty string.\<close>

definition published :: "song \<Rightarrow> bool" where
  "published s = (case pageUrl s of None \<Rightarrow> False | Some u \<Rightarrow> u \<noteq> [])"

definition publishedSongs :: "song list \<Rightarrow> song list" where
  "publishedSongs songs = filter published songs"

text \<open>
  The URL comparison of the later variant, inside its \<^verbatim>\<open>try\<close>: a throwing constructor
  makes the comparison false. The first variant compares \<^verbatim>\<open>song.pageUrl === page\<close>.
\<close>

definition sameTarget :: "browser \<Rightarrow> song \<Rightarrow> string \<Rightarrow> bool" where
  "sameTarget w s page =
     (case pageUrl s of
        None \<Rightarrow> False
      | Some u \<Rightarrow> (case resolveUrl w u of
                     None \<Rightarrow> False
                   | Some href \<Rightarrow> href = origin w @ page \<or> u = page))"

definition sameUrl :: "song \<Rightarrow> string \<Rightarrow> bool" where
  "sameUrl s page = (pageUrl s = Some page)"

definition getCurrentSong :: "browser \<Rightarrow> song list \<Rightarrow> song option" where
  "getCurrentSong w songs = find (\<lambda>s. published s \<and> sameTarget w s (pathname w)) songs"

text \<open>One round of the loop over \<^verbatim>\<open>userBehavior.clicks\<close>, on the pair of score objects.\<close>

definition scoreClick :: "song list \<Rightarrow> jsobj \<times> jsobj \<Rightarrow> string \<times> int \<Rightarrow> jsobj \<times> jsobj" where
  "scoreClick pub acc e =
     (case find (\<lambda>s. title s = fst e) pub of
        None \<Rightarrow> acc
      | Some s \<Rightarrow>
          (foldl (objAdd (snd e * 2)) (fst acc) (tagsOf (genres s)),
           foldl (objAdd (snd e)) (snd acc) (tagsOf (spiritualNeeds s))))"

definition scoreClicks :: "song list \<Rightarrow> jsobj \<Rightarrow> jsobj \<times> jsobj" where
  "scoreClicks pub cl = foldl (scoreClick pub) ([], []) cl"

text \<open>One round of the loop over \<^verbatim>\<open>userBehavior.timeSpent\<close>.\<close>

definition pageGenres :: "(song \<Rightarrow> string \<Rightarrow> bool) \<Rightarrow> song list \<Rightarrow> string \<Rightarrow> string list" where
  "pageGenres same pub page =
     concat (map (\<lambda>s. tagsOf (genres s)) (filter (\<lambda>s. same s page) pub))"

definition scoreTime :: "(song \<Rightarrow> string \<Rightarrow> bool) \<Rightarrow> song list \<Rightarrow> jsobj \<Rightarrow> string \<times> int \<Rightarrow> jsobj" where
  "scoreTime same pub gs e = foldl (objAdd (snd e div 60)) gs (pageGenres same pub (fst e))"

definition scorePage :: "jsobj \<Rightarrow> string list \<Rightarrow> jsobj" where
  "scorePage gs currentPageGenres =
     (if length currentPageGenres > 0 then foldl (objAdd 3) gs currentPageGenres else gs)"

definition genreScores :: "(song \<Rightarrow> string \<Rightarrow> bool) \<Rightarrow> song list \<Rightarrow> behavior \<Rightarrow> string list \<Rightarrow> jsobj" where
  "genreScores same pub b currentPageGenres =
     scorePage (foldl (scoreTime same pub) (fst (scoreClicks pub (clicks b))) (timeSpent b))
       currentPageGenres"

definition needScores :: "song list \<Rightarrow> behavior \<Rightarrow> jsobj" where
  "needScores pub b = snd (scoreClicks pub (clicks b))"

text \<open>The loop for the top genre: \<^verbatim>\<open>finalTopGenre\<close> and \<^verbatim>\<open>highestGenreScore\<close>.\<close>

definition topStep :: "string option \<times> int \<Rightarrow> string \<times> int \<Rightarrow> string option \<times> int" where
  "topStep acc e = (if snd e > snd acc then (Some (fst e), snd e) else acc)"

definition topGenre :: "jsobj \<Rightarrow> string option" where
  "topGenre gs = fst (foldl topStep (None, - 1) gs)"

definition matchingSongs :: "song list \<Rightarrow> string \<Rightarrow> song list" where
  "matchingSongs pub g = filter (\<lambda>s. g \<in> set (tagsOf (genres s))) pub"

text \<open>The score of one candidate, and the loop for \<^verbatim>\<open>bestSong\<close> and \<^verbatim>\<open>highestScore\<close>.\<close>

definition songScore :: "jsobj \<Rightarrow> jsobj \<Rightarrow> song \<Rightarrow> int" where
  "songScore gs ns s =
     foldl (\<lambda>score need. score + orZero ns need)
       (foldl (\<lambda>score genre. score + orZero gs genre) 0 (tagsOf (genres s)))
       (tagsOf (spiritualNeeds s))"

definition isCurrent :: "song option \<Rightarrow> song \<Rightarrow> bool" where
  "isCurrent cur s = (case cur of None \<Rightarrow> False | Some c \<Rightarrow> title s = title c)"

definition bestStep :: "jsobj \<Rightarrow> jsobj \<Rightarrow> song option \<Rightarrow> song option \<times> int \<Rightarrow> song \<Rightarrow> song option \<times> int" where
  "bestStep gs ns cur acc s =
     (if isCurrent cur s then acc
      else if songScore gs ns s > snd acc then (Some s, songScore gs ns s) else acc)"

definition bestSong :: "jsobj \<Rightarrow> jsobj \<Rightarrow> song option \<Rightarrow> song list \<Rightarrow> song option" where
  "bestSong gs ns cur matching = fst (foldl (bestStep gs ns cur) (None, - 1) matching)"

text \<open>
  \<^verbatim>\<open>Math.floor(Math.random() * n)\<close>, with the drawn number \<open>u\<close> as an argument
  (\<open>0 \<le> u < 1\<close> is what \<^verbatim>\<open>Math.random\<close> promises).
\<close>

definition randomIndex :: "rat \<Rightarrow> nat \<Rightarrow> nat" where
  "randomIndex u n = nat \<lfloor>u * of_nat n\<rfloor>"

definition pickRandomSong :: "song list \<Rightarrow> song option \<Rightarrow> rat \<Rightarrow> song option" where
  "pickRandomSong songList cur u =
     (let filteredSongs = (case cur of
                             Some c \<Rightarrow> filter (\<lambda>s. title s \<noteq> title c) songList
                           | None \<Rightarrow> songList)
      in if length filteredSongs = 0 then None
         else arrayGet filteredSongs (randomIndex u (length filteredSongs)))"

text \<open>
  \<^verbatim>\<open>recommendSong\<close> of the variant that excludes the current song. \<open>None\<close> is the
  \<^verbatim>\<open>null\<close> result; the empty string is the one top genre that \<^verbatim>\<open>!finalTopGenre\<close>
  takes for a missing one.
\<close>

definition recommendSong :: "browser \<Rightarrow> song list \<Rightarrow> behavior \<Rightarrow> string list \<Rightarrow> rat \<Rightarrow> song option" where
  "recommendSong w songs b currentPageGenres u =
     (let pub = publishedSongs songs;
          gs = genreScores (sameTarget w) pub b currentPageGenres;
          ns = needScores pub b
      in case topGenre gs of
           None \<Rightarrow> pickRandomSong pub (getCurrentSong w songs) u
         | Some g \<Rightarrow>
             if g = [] then pickRandomSong pub (getCurrentSong w songs) u
             else let matching = matchingSongs pub g
               in if length matching = 0 then pickRandomSong pub (getCurrentSong w songs) u
                  else (case bestSong gs ns (getCurrentSong w songs) matching of
                          Some s \<Rightarrow> Some s
                        | None \<Rightarrow> pickRandomSong matching (getCurrentSong w songs) u))"

text \<open>
  \<^verbatim>\<open>recommendSong\<close> of the first variant: URLs compared with \<^verbatim>\<open>===\<close>, no current song
  (its loop for the best song skips nothing, which is \<^const>\<open>bestSong\<close> without a current
  song), and the random fallbacks read the array at the drawn index directly, so that an
  empty array gives \<^verbatim>\<open>undefined\<close>, here \<open>None\<close> as well.
\<close>

definition recommendSongFirst :: "song list \<Rightarrow> behavior \<Rightarrow> string list \<Rightarrow> rat \<Rightarrow> song option" where
  "recommendSongFirst songs b currentPageGenres u =
     (let pub = publishedSongs songs;
          gs = genreScores sameUrl pub b currentPageGenres;
          ns = needScores pub b
      in case topGenre gs of
           None \<Rightarrow> arrayGet pub (randomIndex u (length pub))
         | Some g \<Rightarrow>
             if g = [] then arrayGet pub (randomIndex u (length pub))
             else let matching = matchingSongs pub g
               in if length matching = 0 then arrayGet pub (randomIndex u (length pub))
                  else (case bestSong gs ns None matching of
                          Some s \<Rightarrow> Some s
                        | None \<Rightarrow> arrayGet matching (randomIndex u (length matching))))"

text \<open>
  \<^verbatim>\<open>triggerRecommendation\<close> of the gated variant: either it returns before setting the
  timer, or the timer's callback calls the scorer and shows a card when the result is a song.
\<close>

datatype outcome = NotEnoughInteractions | Scored "song option"

definition totalCount :: "jsobj \<Rightarrow> int" where
  "totalCount obj = foldl (\<lambda>a v. a + v) 0 (map snd obj)"

definition triggerRecommendation :: "browser \<Rightarrow> song list \<Rightarrow> behavior \<Rightarrow> string list \<Rightarrow> rat \<Rightarrow> outcome" where
  "triggerRecommendation w songs b currentPageGenres u =
     (let minPagesVisited = 3; minSongsClicked = 2;
          totalPagesVisited = totalCount (pagesVisited b);
          totalSongsClicked = totalCount (clicks b)
      in if totalPagesVisited < minPagesVisited \<or> totalSongsClicked < minSongsClicked
         then NotEnoughInteractions
         else Scored (recommendSong w songs b currentPageGenres u))"

section \<open>Predicates used in the statements\<close>

text \<open>
  Every key of \<open>old\<close> is still a key of \<open>new\<close>, with a count at least as large.
\<close>

definition neverDecreases :: "jsobj \<Rightarrow> jsobj \<Rightarrow> bool" where
  "neverDecreases old new =
     list_all (\<lambda>k. case objGet old k of
                     None \<Rightarrow> False
                   | Some v \<Rightarrow> (case objGet new k of None \<Rightarrow> False | Some v' \<Rightarrow> v \<le> v'))
       (map fst old)"

definition grows :: "behavior \<Rightarrow> behavior \<Rightarrow> bool" where
  "grows b b' =
     (neverDecreases (pagesVisited b) (pagesVisited b') \<and>
      neverDecreases (clicks b) (clicks b') \<and>
      neverDecreases (timeSpent b) (timeSpent b'))"

text \<open>
  \<open>firstHighest f xs i\<close>: position \<open>i\<close> of \<open>xs\<close> holds a highest value of \<open>f\<close>, and
  every earlier position holds a strictly lower one.
\<close>

definition firstHighest :: "('a \<Rightarrow> int) \<Rightarrow> 'a list \<Rightarrow> nat \<Rightarrow> bool" where
  "firstHighest f xs i =
     (i < length xs \<and> list_all (\<lambda>x. f x \<le> f (xs ! i)) xs \<and>
      list_all (\<lambda>x. f x < f (xs ! i)) (take i xs))"

text \<open>The matching songs that the loop for the best song does not skip.\<close>

definition candidates :: "song option \<Rightarrow> song list \<Rightarrow> song list" where
  "candidates cur matching = filter (\<lambda>s. \<not> isCurrent cur s) matching"

section \<open>Sample data\<close>

definition songA :: song where
  "songA = \<lparr>title = ''Song A'', genres = ''praise, worship'', spiritualNeeds = ''joy'',
            pageUrl = Some ''/songs/a''\<rparr>"

definition songB :: song where
  "songB = \<lparr>title = ''Song B'', genres = ''Hope'', spiritualNeeds = ''peace, joy'',
            pageUrl = Some ''/songs/b''\<rparr>"

definition songDraft :: song where
  "songDraft = \<lparr>title = ''Song C'', genres = ''praise'', spiritualNeeds = ''rest'',
                pageUrl = None\<rparr>"

text \<open>A visitor on the page of Song A; paths resolve against the origin.\<close>

definition resolveSample :: "string \<Rightarrow> string option" where
  "resolveSample x =
     (case x of
        [] \<Rightarrow> Some ''https://example.org/''
      | c # cs \<Rightarrow> if c = CHR ''/'' then Some (''https://example.org'' @ x) else Some x)"

definition onSongA :: browser where
  "onSongA = \<lparr>origin = ''https://example.org'', pathname = ''/songs/a'',
              resolveUrl = resolveSample\<rparr>"

definition fewVisits :: behavior where
  "fewVisits = \<lparr>pagesVisited = [(''/songs/a'', 2)], clicks = [(''Song A'', 1)],
                timeSpent = [(''/songs/a'', 70)]\<rparr>"

definition enoughVisits :: behavior where
  "enoughVisits = \<lparr>pagesVisited = [(''/'', 1), (''/songs/a'', 2)],
                   clicks = [(''Song A'', 1), (''Song B'', 1)],
                   timeSpent = [(''/songs/a'', 70)]\<rparr>"

text \<open>A song whose genre list names one tag twice, and two songs published on one page.\<close>

definition songTwice :: song where
  "songTwice = \<lparr>title = ''Song D'', genres = ''Praise, praise'', spiritualNeeds = ''joy'',
                pageUrl = Some ''/songs/d''\<rparr>"

definition songHope :: song where
  "songHope = \<lparr>title = ''Song H'', genres = ''hope'', spiritualNeeds = ''peace'',
               pageUrl = Some ''/songs/h''\<rparr>"

definition songHopeLive :: song where
  "songHopeLive = \<lparr>title = ''Song H (live)'', genres = ''Hope, live'', spiritualNeeds = ''peace'',
                   pageUrl = Some ''/songs/h''\<rparr>"

text \<open>A first visit, on the page of Song A, before any click or measured time.\<close>

definition firstVisit :: behavior where
  "firstVisit = \<lparr>pagesVisited = [(''/songs/a'', 1)], clicks = [], timeSpent = []\<rparr>"

text \<open>A visitor on the home page, which is not the page of a song.\<close>

definition onHome :: browser where
  "onHome = \<lparr>origin = ''https://example.org'', pathname = ''/'', resolveUrl = resolveSample\<rparr>"

text \<open>Two clicks on Song H and nothing else.\<close>

definition hopeFan :: behavior where
  "hopeFan = \<lparr>pagesVisited = [(''/'', 3)], clicks = [(''Song H'', 2)], timeSpent = []\<rparr>"

text \<open>A published song whose genre string is empty, and two clicks on it.\<close>

definition songEmpty :: song where
  "songEmpty = \<lparr>title = ''Song E'', genres = [], spiritualNeeds = ''rest'',
                pageUrl = Some ''/songs/e''\<rparr>"

definition emptyTagFan :: behavior where
  "emptyTagFan = \<lparr>pagesVisited = [(''/'', 3)], clicks = [(''Song E'', 2)], timeSpent = []\<rparr>"

section \<open>Objects: reading after writing\<close>

lemma map_of_insIndex:
  "map_of (insIndex k v obj) k' = (if k' = k then Some v else map_of obj k')"
  if "map_of obj k = None"
  using that by (induction obj) (auto split: if_splits)

lemma set_insIndex: "set (insIndex k v obj) = insert (k, v) (set obj)"
  by (induction obj) auto

lemma map_of_replace:
  "map_of (map (\<lambda>e. if fst e = k then (k, v) else e) obj) k' =
     (if k' = k then map_option (\<lambda>_. v) (map_of obj k) else map_of obj k')"
  by (induction obj) auto

lemma objGet_objSet:
  "objGet (objSet obj k v) k' = (if k' = k then Some v else objGet obj k')"
  by (auto simp: objGet_def objSet_def map_of_insIndex map_of_replace map_add_def
      split: option.splits)

lemma set_objSet: "set (objSet obj k v) \<subseteq> insert (k, v) (set obj)"
  by (auto simp: objSet_def set_insIndex split: option.splits if_splits)

lemma orZero_objAdd:
  "orZero (objAdd d obj k) k' = orZero obj k' + (if k' = k then d else 0)"
  by (simp add: orZero_def objAdd_def objGet_objSet)

lemma orZero_foldl_objAdd:
  "orZero (foldl (objAdd d) obj ks) k = orZero obj k + d * int (count_list ks k)"
  by (induction ks arbitrary: obj) (auto simp: orZero_objAdd algebra_simps)

lemma nonNegative_objSet: "nonNegative obj \<Longrightarrow> 0 \<le> v \<Longrightarrow> nonNegative (objSet obj k v)"
  using set_objSet [of obj k v] by (auto simp: nonNegative_def list_all_iff)

lemma orZero_nonneg: "nonNegative obj \<Longrightarrow> 0 \<le> orZero obj k"
proof (cases "map_of obj k")
  case None
  then show ?thesis by (simp add: orZero_def objGet_def)
next
  case (Some v)
  then have "(k, v) \<in> set obj" by (rule map_of_SomeD)
  moreover assume "nonNegative obj"
  ultimately have "0 \<le> v" by (auto simp: nonNegative_def list_all_iff)
  then show ?thesis using Some by (simp add: orZero_def objGet_def)
qed

lemma nonNegative_objAdd: "nonNegative obj \<Longrightarrow> 0 \<le> d \<Longrightarrow> nonNegative (objAdd d obj k)"
  by (simp add: objAdd_def nonNegative_objSet orZero_nonneg)

lemma nonNegative_foldl_objAdd:
  "nonNegative obj \<Longrightarrow> 0 \<le> d \<Longrightarrow> nonNegative (foldl (objAdd d) obj ks)"
  by (induction ks arbitrary: obj) (auto simp: nonNegative_objAdd)

lemma neverDecreases_refl: "neverDecreases obj obj"
  by (auto simp: neverDecreases_def list_all_iff objGet_def split: option.splits
      dest: weak_map_of_SomeI)

lemma neverDecreases_objSet:
  assumes "orZero obj k \<le> v"
  shows "neverDecreases obj (objSet obj k v)"
proof -
  have "case objGet obj k' of None \<Rightarrow> False
        | Some a \<Rightarrow> (case objGet (objSet obj k v) k' of None \<Rightarrow> False | Some a' \<Rightarrow> a \<le> a')"
    if "k' \<in> set (map fst obj)" for k'
  proof -
    from that obtain a where "objGet obj k' = Some a"
      by (auto simp: objGet_def dest: weak_map_of_SomeI)
    then show ?thesis
      using assms by (auto simp: objGet_objSet orZero_def)
  qed
  then show ?thesis
    by (simp add: neverDecreases_def list_all_iff)
qed

section \<open>Tracking keeps the invariant of the behaviour record\<close>

text \<open>
  Claim C9. Starting from a record without negative counts, each of \<^verbatim>\<open>trackPageVisit\<close>,
  \<^verbatim>\<open>trackClick\<close> and \<^verbatim>\<open>trackTimeSpent\<close> gives a record without negative counts in
  which every key of the three mappings is still present with a count at least as large
  as before; for \<^verbatim>\<open>trackTimeSpent\<close> the clock must not have gone backwards since the
  page was loaded, so that the measured time is not negative.
\<close>

theorem tracking_keeps_counts:
  assumes "wfBehavior b" and "start \<le> now"
  shows "wfBehavior (trackPageVisit page b) \<and> grows b (trackPageVisit page b) \<and>
         wfBehavior (trackClick songTitle b) \<and> grows b (trackClick songTitle b) \<and>
         wfBehavior (trackTimeSpent now start page b) \<and>
         grows b (trackTimeSpent now start page b)"
proof -
  have pv: "0 \<le> orZero (pagesVisited b) page" and cl: "0 \<le> orZero (clicks b) songTitle"
    and ts: "0 \<le> orZero (timeSpent b) page"
    using assms(1) by (simp_all add: wfBehavior_def orZero_nonneg)
  have el: "0 \<le> (now - start) div 1000"
    using assms(2) by simp
  have "wfBehavior (trackPageVisit page b)"
    using assms(1) pv by (simp add: wfBehavior_def trackPageVisit_def nonNegative_objSet)
  moreover have "grows b (trackPageVisit page b)"
    by (simp add: grows_def trackPageVisit_def neverDecreases_refl neverDecreases_objSet)
  moreover have "wfBehavior (trackClick songTitle b)"
    using assms(1) cl by (simp add: wfBehavior_def trackClick_def nonNegative_objSet)
  moreover have "grows b (trackClick songTitle b)"
    by (simp add: grows_def trackClick_def neverDecreases_refl neverDecreases_objSet)
  moreover have "wfBehavior (trackTimeSpent now start page b)"
    using assms(1) ts el by (simp add: wfBehavior_def trackTimeSpent_def nonNegative_objSet)
  moreover have "grows b (trackTimeSpent now start page b)"
    using el by (simp add: grows_def trackTimeSpent_def neverDecreases_refl neverDecreases_objSet)
  ultimately show ?thesis by simp
qed

text \<open>
  A second visit, a first click on another song and five and a half seconds on the page.
\<close>

theorem tracking_keeps_counts_witness:
  "wfBehavior fewVisits \<and> (1000 :: int) \<le> 6500 \<and>
   trackPageVisit ''/songs/a'' fewVisits = fewVisits\<lparr>pagesVisited := [(''/songs/a'', 3)]\<rparr> \<and>
   trackClick ''Song B'' fewVisits = fewVisits\<lparr>clicks := [(''Song A'', 1), (''Song B'', 1)]\<rparr> \<and>
   trackTimeSpent 6500 1000 ''/songs/a'' fewVisits = fewVisits\<lparr>timeSpent := [(''/songs/a'', 75)]\<rparr> \<and>
   wfBehavior (trackPageVisit ''/songs/a'' fewVisits) \<and>
   grows fewVisits (trackPageVisit ''/songs/a'' fewVisits) \<and>
   wfBehavior (trackClick ''Song B'' fewVisits) \<and>
   grows fewVisits (trackClick ''Song B'' fewVisits) \<and>
   wfBehavior (trackTimeSpent 6500 1000 ''/songs/a'' fewVisits) \<and>
   grows fewVisits (trackTimeSpent 6500 1000 ''/songs/a'' fewVisits)"
proof -
  have h: "wfBehavior fewVisits"
    by (simp add: wfBehavior_def nonNegative_def fewVisits_def)
  have e: "(1000 :: int) \<le> 6500" by simp
  have 1: "trackPageVisit ''/songs/a'' fewVisits = fewVisits\<lparr>pagesVisited := [(''/songs/a'', 3)]\<rparr>"
    by (simp add: trackPageVisit_def fewVisits_def objSet_def objGet_def orZero_def)
  have 2: "trackClick ''Song B'' fewVisits
             = fewVisits\<lparr>clicks := [(''Song A'', 1), (''Song B'', 1)]\<rparr>"
    by (simp add: trackClick_def fewVisits_def objSet_def objGet_def orZero_def
        isArrayIndex_def isDigit_def)
  have 3: "trackTimeSpent 6500 1000 ''/songs/a'' fewVisits
             = fewVisits\<lparr>timeSpent := [(''/songs/a'', 75)]\<rparr>"
    by (simp add: trackTimeSpent_def fewVisits_def objSet_def objGet_def orZero_def)
  from tracking_keeps_counts [OF h e, of "''/songs/a''" "''Song B''"] h e 1 2 3
  show ?thesis by simp
qed

section \<open>The gate before the scorer\<close>

lemma foldl_plus_sum: "foldl (\<lambda>a v. a + v) a xs = a + sum_list xs" for a :: int
  by (induction xs arbitrary: a) simp_all

lemma totalCount_sum: "totalCount obj = sum_list (map snd obj)"
  by (simp add: totalCount_def foldl_plus_sum)

text \<open>
  Claim C8. In the gated variant \<^verbatim>\<open>triggerRecommendation\<close> reaches the scorer only when
  the visit counts add up to at least 3 and the click counts to at least 2, and then its
  outcome is that of \<^verbatim>\<open>recommendSong\<close> on the same record; when either sum is below its
  threshold it returns at once and nothing is recommended.
\<close>

theorem gating_thresholds:
  "(\<forall>r. triggerRecommendation w songs b currentPageGenres u = Scored r \<longrightarrow>
        3 \<le> sum_list (map snd (pagesVisited b)) \<and> 2 \<le> sum_list (map snd (clicks b)) \<and>
        r = recommendSong w songs b currentPageGenres u) \<and>
   (sum_list (map snd (pagesVisited b)) < 3 \<or> sum_list (map snd (clicks b)) < 2 \<longrightarrow>
        triggerRecommendation w songs b currentPageGenres u = NotEnoughInteractions)"
  by (auto simp: triggerRecommendation_def totalCount_sum Let_def)

text \<open>Two visits are not enough; three visits and two clicks are.\<close>

theorem gating_thresholds_witness:
  "sum_list (map snd (pagesVisited fewVisits)) < 3 \<and>
   triggerRecommendation onSongA [songA, songB] fewVisits [] 0 = NotEnoughInteractions \<and>
   triggerRecommendation onSongA [songA, songB] enoughVisits [] 0
     = Scored (recommendSong onSongA [songA, songB] enoughVisits [] 0) \<and>
   3 \<le> sum_list (map snd (pagesVisited enoughVisits)) \<and>
   2 \<le> sum_list (map snd (clicks enoughVisits))"
proof -
  have few: "sum_list (map snd (pagesVisited fewVisits)) < 3"
    by (simp add: fewVisits_def)
  have run: "triggerRecommendation onSongA [songA, songB] enoughVisits [] 0
     = Scored (recommendSong onSongA [songA, songB] enoughVisits [] 0)"
    by (simp add: triggerRecommendation_def totalCount_def enoughVisits_def)
  from gating_thresholds [of onSongA "[songA, songB]" fewVisits "[]" 0] few
    gating_thresholds [of onSongA "[songA, songB]" enoughVisits "[]" 0] run
  show ?thesis by simp
qed

section \<open>A catalog without published songs\<close>

lemma matchingSongs_Nil: "matchingSongs [] g = []"
  by (simp add: matchingSongs_def)

lemma pickRandomSong_Nil: "pickRandomSong [] cur u = None"
  by (simp add: pickRandomSong_def split: option.splits)

text \<open>
  Claim C6. When no song of the catalog has a non-empty URL, the scorer returns no song,
  whatever the behaviour record, the genres of the current page and the random draw are.
  This holds for both variants; the first one reads index 0 of the empty array, which is
  \<^verbatim>\<open>undefined\<close> and is skipped by the caller like \<^verbatim>\<open>null\<close>.
\<close>

theorem unpublished_catalog_gives_null:
  assumes "\<forall>s \<in> set songs. \<not> published s"
  shows "recommendSong w songs b currentPageGenres u = None \<and>
         recommendSongFirst songs b currentPageGenres u = None"
proof -
  have pub: "publishedSongs songs = []"
    using assms by (simp add: publishedSongs_def)
  have "recommendSong w songs b currentPageGenres u = None"
    by (simp add: recommendSong_def pub Let_def matchingSongs_Nil pickRandomSong_Nil
        split: option.splits)
  moreover have "recommendSongFirst songs b currentPageGenres u = None"
    by (simp add: recommendSongFirst_def pub Let_def matchingSongs_Nil arrayGet_def
        split: option.splits)
  ultimately show ?thesis by simp
qed

text \<open>A catalog holding one unpublished song, with a genre of the page that would match it.\<close>

theorem unpublished_catalog_gives_null_witness:
  "\<not> published songDraft \<and>
   recommendSong onSongA [songDraft] enoughVisits [''praise''] (1 / 2) = None \<and>
   recommendSongFirst [songDraft] enoughVisits [''praise''] (1 / 2) = None"
proof -
  have p: "\<not> published songDraft"
    by (simp add: published_def songDraft_def)
  then have h: "\<forall>s \<in> set [songDraft]. \<not> published s"
    by simp
  from unpublished_catalog_gives_null [OF h] p show ?thesis by blast
qed

section \<open>What one click entry and one dwell entry add to the scores\<close>

lemma count_list_distinct: "distinct xs \<Longrightarrow> x \<in> set xs \<Longrightarrow> count_list xs x = 1"
  by (induction xs) auto

text \<open>
  Claim C3, amended. One round of the loop over \<^verbatim>\<open>clicks\<close>, for the entry
  \<open>(songTitle, n)\<close>: when no published song has that title the two score objects stay as
  they are; otherwise, with \<open>s\<close> the first published song of that title, every tag gains
  \<open>n * 2\<close> in \<^verbatim>\<open>genreScores\<close> for each time it occurs in the genre list of \<open>s\<close>, and
  \<open>n\<close> in \<^verbatim>\<open>needScores\<close> for each time it occurs in the need list of \<open>s\<close>. So a tag
  of a list without repetition gains exactly \<open>n * 2\<close>, respectively \<open>n\<close>.
\<close>

theorem click_entry_gains:
  "(find (\<lambda>s. title s = songTitle) pub = None \<longrightarrow>
      scoreClick pub (gs, ns) (songTitle, n) = (gs, ns)) \<and>
   (\<forall>s. find (\<lambda>s. title s = songTitle) pub = Some s \<longrightarrow>
      (\<forall>t. orZero (fst (scoreClick pub (gs, ns) (songTitle, n))) t
            = orZero gs t + n * 2 * int (count_list (tagsOf (genres s)) t)) \<and>
      (\<forall>t. orZero (snd (scoreClick pub (gs, ns) (songTitle, n))) t
            = orZero ns t + n * int (count_list (tagsOf (spiritualNeeds s)) t)) \<and>
      (distinct (tagsOf (genres s)) \<longrightarrow>
         (\<forall>t \<in> set (tagsOf (genres s)).
            orZero (fst (scoreClick pub (gs, ns) (songTitle, n))) t = orZero gs t + n * 2)) \<and>
      (distinct (tagsOf (spiritualNeeds s)) \<longrightarrow>
         (\<forall>t \<in> set (tagsOf (spiritualNeeds s)).
            orZero (snd (scoreClick pub (gs, ns) (songTitle, n))) t = orZero ns t + n)))"
  by (simp add: scoreClick_def orZero_foldl_objAdd count_list_distinct)

text \<open>
  Three clicks on Song A (genres \<^verbatim>\<open>praise, worship\<close>, need \<^verbatim>\<open>joy\<close>) give praise 6,
  worship 6 and joy 3; clicks on a title that is not published give nothing.
\<close>

theorem click_entry_gains_witness:
  "find (\<lambda>s. title s = ''Song A'') [songA] = Some songA \<and>
   distinct (tagsOf (genres songA)) \<and> distinct (tagsOf (spiritualNeeds songA)) \<and>
   orZero (fst (scoreClick [songA] ([], []) (''Song A'', 3))) ''praise'' = 6 \<and>
   orZero (fst (scoreClick [songA] ([], []) (''Song A'', 3))) ''worship'' = 6 \<and>
   orZero (snd (scoreClick [songA] ([], []) (''Song A'', 3))) ''joy'' = 3 \<and>
   find (\<lambda>s. title s = ''Song B'') [songA] = None \<and>
   scoreClick [songA] ([], []) (''Song B'', 4) = ([], [])"
proof -
  have g: "tagsOf (genres songA) = [''praise'', ''worship'']"
    and n: "tagsOf (spiritualNeeds songA) = [''joy'']"
    by (simp_all add: songA_def tagsOf_def splitComma_def toLowerCase_def lowerChar_def
        trim_def isSpace_def)
  have f: "find (\<lambda>s. title s = ''Song A'') [songA] = Some songA"
    and f': "find (\<lambda>s. title s = ''Song B'') [songA] = None"
    by (simp_all add: songA_def)
  from click_entry_gains [of "''Song A''" "[songA]" "[]" "[]" 3]
    click_entry_gains [of "''Song B''" "[songA]" "[]" "[]" 4] f f' g n
  show ?thesis by (simp add: orZero_def objGet_def)
qed

text \<open>
  The claim as first stated fails for a song that lists a tag twice: with three clicks
  the tag gains 12, not 6.
\<close>

theorem click_gain_twice_counterexample:
  "title songTwice = ''Song D'' \<and> published songTwice \<and>
   tagsOf (genres songTwice) = [''praise'', ''praise''] \<and>
   orZero [] ''praise'' = 0 \<and>
   orZero (fst (scoreClick [songTwice] ([], []) (''Song D'', 3))) ''praise'' = 12 \<and>
   orZero (fst (scoreClick [songTwice] ([], []) (''Song D'', 3))) ''praise''
     \<noteq> orZero [] ''praise'' + 3 * 2"
  by code_simp

text \<open>
  Claim C4, amended. One round of the loop over \<^verbatim>\<open>timeSpent\<close>, for the entry
  \<open>(page, seconds)\<close>: every tag gains \<open>seconds div 60\<close> (whole minutes, rounded down) for
  each time it occurs in the genre lists of the published songs whose URL matches the
  page, taken together. Less than a minute adds nothing, and when one song matches and its
  list has no repetition each of its tags gains exactly \<open>seconds div 60\<close>. The comparison
  of URLs is a parameter: \<^const>\<open>sameUrl\<close> in the first variant, \<^const>\<open>sameTarget\<close> later.
\<close>

theorem time_entry_gains:
  "(\<forall>t. orZero (scoreTime same pub gs (page, seconds)) t
         = orZero gs t + (seconds div 60) * int (count_list (pageGenres same pub page) t)) \<and>
   (0 \<le> seconds \<and> seconds < 60 \<longrightarrow>
      (\<forall>t. orZero (scoreTime same pub gs (page, seconds)) t = orZero gs t)) \<and>
   (\<forall>s. filter (\<lambda>s. same s page) pub = [s] \<and> distinct (tagsOf (genres s)) \<longrightarrow>
      (\<forall>t \<in> set (tagsOf (genres s)).
         orZero (scoreTime same pub gs (page, seconds)) t = orZero gs t + seconds div 60))"
  by (simp add: scoreTime_def orZero_foldl_objAdd pageGenres_def count_list_distinct)

text \<open>125 seconds on the page of a song tagged \<^verbatim>\<open>hope\<close> add 2; 59 seconds add 0.\<close>

theorem time_entry_gains_witness:
  "filter (\<lambda>s. sameUrl s ''/songs/h'') [songA, songHope] = [songHope] \<and>
   filter (\<lambda>s. sameTarget onSongA s ''/songs/h'') [songA, songHope] = [songHope] \<and>
   distinct (tagsOf (genres songHope)) \<and> ''hope'' \<in> set (tagsOf (genres songHope)) \<and>
   orZero (scoreTime sameUrl [songA, songHope] [] (''/songs/h'', 125)) ''hope'' = 2 \<and>
   orZero (scoreTime (sameTarget onSongA) [songA, songHope] [] (''/songs/h'', 125)) ''hope'' = 2 \<and>
   (0 :: int) \<le> 59 \<and> (59 :: int) < 60 \<and>
   orZero (scoreTime sameUrl [songA, songHope] [] (''/songs/h'', 59)) ''hope'' = 0"
proof -
  have g: "tagsOf (genres songHope) = [''hope'']"
    by (simp add: songHope_def tagsOf_def splitComma_def toLowerCase_def lowerChar_def
        trim_def isSpace_def)
  have d: "distinct (tagsOf (genres songHope))" and m: "''hope'' \<in> set (tagsOf (genres songHope))"
    by (simp_all add: g)
  have f: "filter (\<lambda>s. sameUrl s ''/songs/h'') [songA, songHope] = [songHope]"
    by (simp add: sameUrl_def songA_def songHope_def)
  have f': "filter (\<lambda>s. sameTarget onSongA s ''/songs/h'') [songA, songHope] = [songHope]"
    by (simp add: sameTarget_def songA_def songHope_def onSongA_def resolveSample_def)
  have z: "orZero [] ''hope'' = 0"
    by (simp add: orZero_def objGet_def)
  note one = time_entry_gains [THEN conjunct2, THEN conjunct2, rule_format]
  note short = time_entry_gains [THEN conjunct2, THEN conjunct1, rule_format]
  have "orZero (scoreTime sameUrl [songA, songHope] [] (''/songs/h'', 125)) ''hope'' = 2"
    using one [of sameUrl "''/songs/h''" "[songA, songHope]" songHope "''hope''" "[]" 125,
        OF conjI [OF f d] m] z by simp
  moreover
  have "orZero (scoreTime (sameTarget onSongA) [songA, songHope] [] (''/songs/h'', 125)) ''hope'' = 2"
    using one [of "sameTarget onSongA" "''/songs/h''" "[songA, songHope]" songHope "''hope''" "[]" 125,
        OF conjI [OF f' d] m] z by simp
  moreover
  have "orZero (scoreTime sameUrl [songA, songHope] [] (''/songs/h'', 59)) ''hope'' = 0"
    using short [of 59 sameUrl "[songA, songHope]" "[]" "''/songs/h''" "''hope''"] z by simp
  ultimately show ?thesis
    using f f' d m by simp
qed

text \<open>
  The claim as first stated fails when two published songs tagged \<^verbatim>\<open>hope\<close> share the
  page: 125 seconds add 4 to the tag, not 2.
\<close>

theorem time_gain_shared_page_counterexample:
  "published songHope \<and> published songHopeLive \<and>
   sameUrl songHope ''/songs/h'' \<and> sameUrl songHopeLive ''/songs/h'' \<and>
   sameTarget onSongA songHope ''/songs/h'' \<and> sameTarget onSongA songHopeLive ''/songs/h'' \<and>
   tagsOf (genres songHope) = [''hope''] \<and>
   tagsOf (genres songHopeLive) = [''hope'', ''live''] \<and>
   (125 :: int) div 60 = 2 \<and>
   orZero [] ''hope'' = 0 \<and>
   orZero (scoreTime sameUrl [songHope, songHopeLive] [] (''/songs/h'', 125)) ''hope'' = 4 \<and>
   orZero (scoreTime (sameTarget onSongA) [songHope, songHopeLive] [] (''/songs/h'', 125)) ''hope'' = 4"
  by code_simp

section \<open>The random fallback\<close>

lemma randomIndex_less:
  assumes "0 \<le> u" and "u < 1" and "0 < n"
  shows "randomIndex u n < n"
proof -
  have "u * of_nat n < of_nat n"
    using assms by simp
  then have "\<lfloor>u * of_nat n\<rfloor> < int n"
    by (simp add: floor_less_iff)
  moreover have "0 \<le> \<lfloor>u * of_nat n\<rfloor>"
    using assms by simp
  ultimately show ?thesis
    by (simp add: randomIndex_def nat_less_iff)
qed

lemma arrayGet_random:
  assumes "0 \<le> u" and "u < 1" and "xs \<noteq> []"
  shows "\<exists>x \<in> set xs. arrayGet xs (randomIndex u (length xs)) = Some x"
  using randomIndex_less [OF assms(1,2), of "length xs"] assms(3)
  by (simp add: arrayGet_def)

lemma filteredSongs_eq:
  "(case cur of Some c \<Rightarrow> filter (\<lambda>s. title s \<noteq> title c) songList | None \<Rightarrow> songList)
     = filter (\<lambda>s. \<not> isCurrent cur s) songList"
  by (cases cur) (simp_all add: isCurrent_def)

lemma pickRandomSong_eq:
  "pickRandomSong songList cur u =
     (if filter (\<lambda>s. \<not> isCurrent cur s) songList = [] then None
      else arrayGet (filter (\<lambda>s. \<not> isCurrent cur s) songList)
             (randomIndex u (length (filter (\<lambda>s. \<not> isCurrent cur s) songList))))"
  by (simp add: pickRandomSong_def filteredSongs_eq Let_def)

lemma pickRandomSong_None:
  assumes "0 \<le> u" and "u < 1"
  shows "pickRandomSong songList cur u = None \<longleftrightarrow> (\<forall>s \<in> set songList. isCurrent cur s)"
proof (cases "filter (\<lambda>s. \<not> isCurrent cur s) songList = []")
  case True
  then show ?thesis
    by (simp add: pickRandomSong_eq filter_empty_conv)
next
  case False
  with arrayGet_random [OF assms False] show ?thesis
    by (auto simp: pickRandomSong_eq filter_empty_conv)
qed

lemma pickRandomSong_Some:
  assumes "pickRandomSong songList cur u = Some s"
  shows "s \<in> set songList \<and> \<not> isCurrent cur s"
proof -
  let ?f = "filter (\<lambda>s. \<not> isCurrent cur s) songList"
  from assms have "?f \<noteq> []" and "arrayGet ?f (randomIndex u (length ?f)) = Some s"
    by (simp_all add: pickRandomSong_eq split: if_splits)
  then have "randomIndex u (length ?f) < length ?f" and "s = ?f ! randomIndex u (length ?f)"
    by (simp_all add: arrayGet_def split: if_splits)
  then have "s \<in> set ?f"
    by (simp only: nth_mem)
  then show ?thesis by simp
qed

lemma foldl_bestStep_current:
  "\<forall>s \<in> set matching. isCurrent cur s \<Longrightarrow> foldl (bestStep gs ns cur) acc matching = acc"
  by (induction matching arbitrary: acc) (simp_all add: bestStep_def)

lemma bestSong_all_current:
  "\<forall>s \<in> set matching. isCurrent cur s \<Longrightarrow> bestSong gs ns cur matching = None"
  by (simp add: bestSong_def foldl_bestStep_current)




section \<open>A visitor without clicks, dwell time or page genres\<close>

lemma genreScores_empty:
  "clicks b = [] \<Longrightarrow> timeSpent b = [] \<Longrightarrow> genreScores same pub b [] = []"
  by (simp add: genreScores_def scoreClicks_def scorePage_def)

lemma topGenre_Nil: "topGenre [] = None"
  by (simp add: topGenre_def)

text \<open>
  Claim C7, amended. With no clicks, no dwell time and no genre on the page, and with at
  least one published song, the first variant returns a published song. The variant that
  excludes the current song returns a published song that is not the current one when
  there is such a song, and \<^verbatim>\<open>null\<close> when every published song carries the title of the
  current song. Neither variant has a failing operation on this path: of a song only
  \<^verbatim>\<open>pageUrl\<close> and \<^verbatim>\<open>title\<close> are read, and a throwing URL constructor is caught, which
  \<^const>\<open>sameTarget\<close> gives as a failed comparison.
\<close>

theorem idle_visitor_gets_fallback:
  assumes "clicks b = []" and "timeSpent b = []" and "0 \<le> u" and "u < 1"
    and "\<exists>s \<in> set songs. published s"
  shows "(\<exists>s \<in> set songs. published s \<and> recommendSongFirst songs b [] u = Some s) \<and>
         (recommendSong w songs b [] u = None \<longleftrightarrow>
            (\<forall>s \<in> set songs. published s \<longrightarrow> isCurrent (getCurrentSong w songs) s)) \<and>
         (\<forall>s. recommendSong w songs b [] u = Some s \<longrightarrow>
            s \<in> set songs \<and> published s \<and> \<not> isCurrent (getCurrentSong w songs) s)"
proof -
  have ne: "publishedSongs songs \<noteq> []"
    using assms(5) by (simp add: publishedSongs_def filter_empty_conv)
  have first: "recommendSongFirst songs b [] u
      = arrayGet (publishedSongs songs) (randomIndex u (length (publishedSongs songs)))"
    by (simp add: recommendSongFirst_def Let_def genreScores_empty [OF assms(1,2)] topGenre_Nil)
  have later: "recommendSong w songs b [] u
      = pickRandomSong (publishedSongs songs) (getCurrentSong w songs) u"
    by (simp add: recommendSong_def Let_def genreScores_empty [OF assms(1,2)] topGenre_Nil)
  have "\<exists>s \<in> set songs. published s \<and> recommendSongFirst songs b [] u = Some s"
    using arrayGet_random [OF assms(3,4) ne] first by (auto simp: publishedSongs_def)
  moreover have "recommendSong w songs b [] u = None \<longleftrightarrow>
      (\<forall>s \<in> set songs. published s \<longrightarrow> isCurrent (getCurrentSong w songs) s)"
    by (auto simp: later pickRandomSong_None [OF assms(3,4)] publishedSongs_def)
  moreover have "s \<in> set songs \<and> published s \<and> \<not> isCurrent (getCurrentSong w songs) s"
    if "recommendSong w songs b [] u = Some s" for s
    using pickRandomSong_Some [of "publishedSongs songs" "getCurrentSong w songs" u s] that
    by (simp add: later publishedSongs_def)
  ultimately show ?thesis by blast
qed

text \<open>A first visit on the page of Song A, with Song B published as well.\<close>

theorem idle_visitor_gets_fallback_witness:
  "clicks firstVisit = [] \<and> timeSpent firstVisit = [] \<and> (0 :: rat) \<le> 1 / 2 \<and> (1 / 2 :: rat) < 1 \<and>
   (\<exists>s \<in> set [songDraft, songA, songB]. published s) \<and>
   recommendSongFirst [songDraft, songA, songB] firstVisit [] (1 / 2) = Some songB \<and>
   recommendSong onSongA [songDraft, songA, songB] firstVisit [] (1 / 2) = Some songB \<and>
   published songB \<and> \<not> isCurrent (getCurrentSong onSongA [songDraft, songA, songB]) songB"
proof -
  have e: "clicks firstVisit = []" "timeSpent firstVisit = []"
    by (simp_all add: firstVisit_def)
  have h: "(0 :: rat) \<le> 1 / 2" "(1 / 2 :: rat) < 1" by simp_all
  have p: "\<exists>s \<in> set [songDraft, songA, songB]. published s"
    by (simp add: published_def songA_def)
  have r: "recommendSongFirst [songDraft, songA, songB] firstVisit [] (1 / 2) = Some songB"
    "recommendSong onSongA [songDraft, songA, songB] firstVisit [] (1 / 2) = Some songB"
    by code_simp+
  from idle_visitor_gets_fallback [OF e h p, of onSongA] e h p r
  show ?thesis by simp
qed

text \<open>
  The claim as first stated fails in the later variant when the visitor is on the page of
  the only published song.
\<close>

theorem idle_visitor_on_only_song_counterexample:
  "published songA \<and> publishedSongs [songA] = [songA] \<and>
   clicks firstVisit = [] \<and> timeSpent firstVisit = [] \<and>
   pathname onSongA = ''/songs/a'' \<and> pageUrl songA = Some ''/songs/a'' \<and>
   recommendSong onSongA [songA] firstVisit [] 0 = None \<and>
   recommendSong onSongA [songA] firstVisit [] (1 / 2) = None"
  by code_simp

section \<open>The loops for the top genre and the best song\<close>

lemma foldl_invariant:
  assumes "P a" and "\<And>a x. P a \<Longrightarrow> x \<in> set xs \<Longrightarrow> P (f a x)"
  shows "P (foldl f a xs)"
  using assms by (induction xs arbitrary: a) simp_all

text \<open>
  Both loops keep the first entry that is strictly above everything seen before, starting
  from the value \<open>- 1\<close>: either nothing was above \<open>- 1\<close>, or the result is the first
  highest entry.
\<close>

lemma firstMax_fold:
  fixes f :: "'a \<Rightarrow> int" and g :: "'a \<Rightarrow> 'b"
  defines "step \<equiv> (\<lambda>acc x. if f x > snd acc then (Some (g x), f x) else acc)"
  shows "(foldl step (None, - 1) xs = (None, - 1) \<and> (\<forall>x \<in> set xs. f x \<le> - 1)) \<or>
         (\<exists>i < length xs. foldl step (None, - 1) xs = (Some (g (xs ! i)), f (xs ! i)) \<and>
              - 1 < f (xs ! i) \<and>
              (\<forall>j < length xs. f (xs ! j) \<le> f (xs ! i)) \<and>
              (\<forall>j < i. f (xs ! j) < f (xs ! i)))"
proof (induction xs rule: rev_induct)
  case Nil
  then show ?case by simp
next
  case (snoc x xs)
  let ?goal = "\<lambda>r. \<exists>i < length (xs @ [x]). r = (Some (g ((xs @ [x]) ! i)), f ((xs @ [x]) ! i)) \<and>
              - 1 < f ((xs @ [x]) ! i) \<and>
              (\<forall>j < length (xs @ [x]). f ((xs @ [x]) ! j) \<le> f ((xs @ [x]) ! i)) \<and>
              (\<forall>j < i. f ((xs @ [x]) ! j) < f ((xs @ [x]) ! i))"
  from snoc.IH show ?case
  proof (elim disjE conjE exE)
    assume a: "foldl step (None, - 1) xs = (None, - 1)" and b: "\<forall>x \<in> set xs. f x \<le> - 1"
    show ?thesis
    proof (cases "f x > - 1")
      case True
      have "foldl step (None, - 1) (xs @ [x]) = (Some (g x), f x)"
        using a True by (simp add: step_def)
      moreover have "\<forall>j < length xs. f (xs ! j) < f x"
        using b True by (metis nth_mem order.strict_trans1)
      ultimately have "?goal (foldl step (None, - 1) (xs @ [x]))"
        using True by (intro exI [of _ "length xs"]) (auto simp: nth_append less_Suc_eq)
      then show ?thesis ..
    next
      case False
      then show ?thesis using a b by (auto simp: step_def)
    qed
  next
    fix i
    assume i: "i < length xs"
      and a: "foldl step (None, - 1) xs = (Some (g (xs ! i)), f (xs ! i))"
      and pos: "- 1 < f (xs ! i)"
      and mx: "\<forall>j < length xs. f (xs ! j) \<le> f (xs ! i)"
      and before: "\<forall>j < i. f (xs ! j) < f (xs ! i)"
    show ?thesis
    proof (cases "f x > f (xs ! i)")
      case True
      have "foldl step (None, - 1) (xs @ [x]) = (Some (g x), f x)"
        using a True by (simp add: step_def)
      moreover have "\<forall>j < length xs. f (xs ! j) < f x"
        using mx True by fastforce
      ultimately have "?goal (foldl step (None, - 1) (xs @ [x]))"
        using True pos by (intro exI [of _ "length xs"]) (auto simp: nth_append less_Suc_eq)
      then show ?thesis ..
    next
      case False
      have "foldl step (None, - 1) (xs @ [x]) = (Some (g (xs ! i)), f (xs ! i))"
        using a False by (simp add: step_def)
      then have "?goal (foldl step (None, - 1) (xs @ [x]))"
        using False pos mx before i by (intro exI [of _ i]) (auto simp: nth_append less_Suc_eq)
      then show ?thesis ..
    qed
  qed
qed

lemma firstHighestI:
  assumes "i < length xs" and "\<forall>j < length xs. f (xs ! j) \<le> f (xs ! i)"
    and "\<forall>j < i. f (xs ! j) < f (xs ! i)"
  shows "firstHighest f xs i"
proof -
  have "list_all (\<lambda>x. f x \<le> f (xs ! i)) xs"
    using assms(2) by (auto simp: list_all_iff in_set_conv_nth)
  moreover have "list_all (\<lambda>x. f x < f (xs ! i)) (take i xs)"
    using assms(1,3) by (auto simp: list_all_iff in_set_conv_nth)
  ultimately show ?thesis
    using assms(1) by (simp add: firstHighest_def)
qed

text \<open>Above the start value \<open>- 1\<close> the loop returns the first highest entry.\<close>

lemma firstMax_fold_nonneg:
  fixes f :: "'a \<Rightarrow> int" and g :: "'a \<Rightarrow> 'b"
  assumes "xs \<noteq> []" and "\<forall>x \<in> set xs. 0 \<le> f x"
  shows "\<exists>i. firstHighest f xs i \<and>
     fst (foldl (\<lambda>acc x. if f x > snd acc then (Some (g x), f x) else acc) (None, - 1) xs)
       = Some (g (xs ! i))"
proof -
  from assms obtain x where "x \<in> set xs" and "0 \<le> f x"
    by (cases xs) auto
  then have "\<not> (\<forall>x \<in> set xs. f x \<le> - 1)"
    by force
  with firstMax_fold [of f g xs] show ?thesis
    by (auto intro: firstHighestI)
qed

lemma topGenre_fold:
  "topGenre gs = fst (foldl (\<lambda>acc e. if snd e > snd acc then (Some (fst e), snd e) else acc)
                      (None, - 1) gs)"
proof -
  have "topStep = (\<lambda>acc e. if snd e > snd acc then (Some (fst e), snd e) else acc)"
    by (intro ext) (simp add: topStep_def)
  then show ?thesis by (simp add: topGenre_def)
qed

lemma foldl_bestStep_candidates:
  "foldl (bestStep gs ns cur) acc matching =
     foldl (\<lambda>acc s. if songScore gs ns s > snd acc then (Some s, songScore gs ns s) else acc) acc
       (candidates cur matching)"
  by (induction matching arbitrary: acc) (simp_all add: bestStep_def candidates_def)

lemma bestSong_fold:
  "bestSong gs ns cur matching =
     fst (foldl (\<lambda>acc s. if songScore gs ns s > snd acc then (Some s, songScore gs ns s) else acc)
            (None, - 1) (candidates cur matching))"
  by (simp add: bestSong_def foldl_bestStep_candidates)

lemma bestSong_member:
  assumes "bestSong gs ns cur matching = Some s"
  shows "s \<in> set matching \<and> \<not> isCurrent cur s"
proof -
  from firstMax_fold [of "songScore gs ns" "\<lambda>s. s" "candidates cur matching"] assms
  have "s \<in> set (candidates cur matching)"
    by (auto simp: bestSong_fold)
  then show ?thesis by (simp add: candidates_def)
qed

section \<open>Scores are never negative\<close>

lemma foldl_add_sum:
  "foldl (\<lambda>score t. score + f t) a ts = a + sum_list (map f ts)" for a :: int
  by (induction ts arbitrary: a) simp_all

lemma songScore_sum:
  "songScore gs ns s = sum_list (map (orZero gs) (tagsOf (genres s)))
                      + sum_list (map (orZero ns) (tagsOf (spiritualNeeds s)))"
  by (simp add: songScore_def foldl_add_sum)

lemma songScore_nonneg:
  assumes "nonNegative gs" and "nonNegative ns"
  shows "0 \<le> songScore gs ns s"
  using assms by (auto simp: songScore_sum intro!: add_nonneg_nonneg sum_list_nonneg orZero_nonneg)

lemma nonNegative_Nil: "nonNegative []"
  by (simp add: nonNegative_def)

lemma nonNegative_scoreClick:
  assumes "nonNegative (fst acc) \<and> nonNegative (snd acc)" and "0 \<le> snd e"
  shows "nonNegative (fst (scoreClick pub acc e)) \<and> nonNegative (snd (scoreClick pub acc e))"
  using assms by (simp add: scoreClick_def nonNegative_foldl_objAdd split: option.splits)

lemma nonNegative_scoreClicks:
  assumes "nonNegative cl"
  shows "nonNegative (fst (scoreClicks pub cl)) \<and> nonNegative (snd (scoreClicks pub cl))"
  unfolding scoreClicks_def
proof (rule foldl_invariant)
  show "nonNegative (fst ([], [])) \<and> nonNegative (snd ([], []))"
    by (simp add: nonNegative_Nil)
next
  fix acc :: "jsobj \<times> jsobj" and e
  assume "nonNegative (fst acc) \<and> nonNegative (snd acc)" and "e \<in> set cl"
  moreover from \<open>e \<in> set cl\<close> assms have "0 \<le> snd e"
    by (simp add: nonNegative_def list_all_iff)
  ultimately show "nonNegative (fst (scoreClick pub acc e)) \<and> nonNegative (snd (scoreClick pub acc e))"
    by (simp add: nonNegative_scoreClick)
qed

lemma nonNegative_scoreTimes:
  assumes "nonNegative ts" and "nonNegative gs"
  shows "nonNegative (foldl (scoreTime same pub) gs ts)"
proof (rule foldl_invariant)
  show "nonNegative gs" by fact
next
  fix acc e
  assume "nonNegative acc" and "e \<in> set ts"
  moreover from \<open>e \<in> set ts\<close> assms(1) have "0 \<le> snd e div 60"
    by (auto simp: nonNegative_def list_all_iff pos_imp_zdiv_nonneg_iff)
  ultimately show "nonNegative (scoreTime same pub acc e)"
    by (simp add: scoreTime_def nonNegative_foldl_objAdd)
qed

lemma nonNegative_genreScores:
  assumes "wfBehavior b"
  shows "nonNegative (genreScores same pub b currentPageGenres)"
  using assms
  by (simp add: genreScores_def scorePage_def wfBehavior_def nonNegative_foldl_objAdd
      nonNegative_scoreTimes nonNegative_scoreClicks)

lemma nonNegative_needScores:
  assumes "wfBehavior b"
  shows "nonNegative (needScores pub b)"
  using assms by (simp add: needScores_def wfBehavior_def nonNegative_scoreClicks)

section \<open>The keys of a score object are distinct\<close>

lemma keys_replace: "map fst (map (\<lambda>e. if fst e = k then (k, v) else e) obj) = map fst obj"
  by (induction obj) auto

lemma distinct_insIndex:
  assumes "k \<notin> fst ` set obj" and "distinct (map fst obj)"
  shows "distinct (map fst (insIndex k v obj))"
  using assms by (induction obj) (auto simp: set_insIndex)

lemma distinct_objSet:
  assumes "distinct (map fst obj)"
  shows "distinct (map fst (objSet obj k v))"
proof (cases "objGet obj k")
  case None
  then have "k \<notin> fst ` set obj"
    by (simp add: objGet_def map_of_eq_None_iff)
  then show ?thesis
    using assms None by (auto simp: objSet_def distinct_insIndex)
next
  case (Some a)
  show ?thesis
    unfolding objSet_def Some option.case keys_replace by (rule assms)
qed

lemma distinct_foldl_objAdd:
  "distinct (map fst obj) \<Longrightarrow> distinct (map fst (foldl (objAdd d) obj ks))"
  by (rule foldl_invariant) (simp_all add: objAdd_def distinct_objSet)

lemma distinct_genreScores: "distinct (map fst (genreScores same pub b currentPageGenres))"
proof -
  have "distinct (map fst (fst (scoreClicks pub (clicks b))))"
    unfolding scoreClicks_def
    by (rule foldl_invariant)
      (simp_all add: scoreClick_def distinct_foldl_objAdd split: option.splits)
  then have "distinct (map fst (foldl (scoreTime same pub) (fst (scoreClicks pub (clicks b)))
                                  (timeSpent b)))"
    by (rule foldl_invariant) (simp add: scoreTime_def distinct_foldl_objAdd)
  then show ?thesis
    by (simp add: genreScores_def scorePage_def distinct_foldl_objAdd)
qed

section \<open>The best candidate\<close>

lemma candidates_None: "candidates None matching = matching"
  by (simp add: candidates_def isCurrent_def)

lemma recommendSong_best:
  assumes "topGenre (genreScores (sameTarget w) (publishedSongs songs) b currentPageGenres) = Some g"
    and "g \<noteq> []"
    and "bestSong (genreScores (sameTarget w) (publishedSongs songs) b currentPageGenres)
           (needScores (publishedSongs songs) b) (getCurrentSong w songs)
           (matchingSongs (publishedSongs songs) g) = Some s"
  shows "recommendSong w songs b currentPageGenres u = Some s"
proof -
  from bestSong_member [OF assms(3)] have "matchingSongs (publishedSongs songs) g \<noteq> []"
    by auto
  with assms show ?thesis
    by (simp add: recommendSong_def Let_def)
qed

lemma recommendSongFirst_best:
  assumes "topGenre (genreScores sameUrl (publishedSongs songs) b currentPageGenres) = Some g"
    and "g \<noteq> []"
    and "bestSong (genreScores sameUrl (publishedSongs songs) b currentPageGenres)
           (needScores (publishedSongs songs) b) None
           (matchingSongs (publishedSongs songs) g) = Some s"
  shows "recommendSongFirst songs b currentPageGenres u = Some s"
proof -
  from bestSong_member [OF assms(3)] have "matchingSongs (publishedSongs songs) g \<noteq> []"
    by auto
  with assms show ?thesis
    by (simp add: recommendSongFirst_def Let_def)
qed

lemma bestSong_firstHighest:
  assumes "nonNegative gs" and "nonNegative ns" and "candidates cur matching \<noteq> []"
  shows "\<exists>i. firstHighest (songScore gs ns) (candidates cur matching) i \<and>
             bestSong gs ns cur matching = Some (candidates cur matching ! i)"
  using firstMax_fold_nonneg [of "candidates cur matching" "songScore gs ns" "\<lambda>s. s"] assms
  by (simp add: bestSong_fold songScore_nonneg)

text \<open>
  Claim C1, amended. Take a behaviour record without negative counts, a top genre that is
  not the empty string, and at least one matching song that is not skipped as the current
  song. Then the scorer returns the first candidate, in the order of the catalog, whose
  total is the highest: no candidate has a higher total and every earlier candidate has a
  strictly lower one. The total of a song is the sum of \<^verbatim>\<open>genreScores[tag] || 0\<close> over its
  genre tags plus the sum of \<^verbatim>\<open>needScores[tag] || 0\<close> over its need tags. The candidates
  are the matching songs other than the current song in the later variant, and all
  matching songs in the first variant. Nothing is said here about a top genre that is the
  empty string.
\<close>

theorem best_candidate_has_highest_total:
  fixes w songs b currentPageGenres u
  defines "pub \<equiv> publishedSongs songs"
  defines "gs \<equiv> genreScores (sameTarget w) pub b currentPageGenres"
  defines "gs1 \<equiv> genreScores sameUrl pub b currentPageGenres"
  defines "ns \<equiv> needScores pub b"
  defines "cur \<equiv> getCurrentSong w songs"
  assumes "wfBehavior b"
  shows "(\<forall>g. topGenre gs = Some g \<and> g \<noteq> [] \<and> candidates cur (matchingSongs pub g) \<noteq> [] \<longrightarrow>
            (\<exists>i. firstHighest (songScore gs ns) (candidates cur (matchingSongs pub g)) i \<and>
                 recommendSong w songs b currentPageGenres u
                   = Some (candidates cur (matchingSongs pub g) ! i))) \<and>
         (\<forall>g. topGenre gs1 = Some g \<and> g \<noteq> [] \<and> matchingSongs pub g \<noteq> [] \<longrightarrow>
            (\<exists>i. firstHighest (songScore gs1 ns) (matchingSongs pub g) i \<and>
                 recommendSongFirst songs b currentPageGenres u = Some (matchingSongs pub g ! i))) \<and>
         (\<forall>s. songScore gs ns s = sum_list (map (orZero gs) (tagsOf (genres s)))
                                  + sum_list (map (orZero ns) (tagsOf (spiritualNeeds s))))"
proof -
  have nn: "nonNegative gs" "nonNegative gs1" "nonNegative ns"
    using \<open>wfBehavior b\<close>
    by (simp_all add: gs_def gs1_def ns_def nonNegative_genreScores nonNegative_needScores)
  have later: "\<exists>i. firstHighest (songScore gs ns) (candidates cur (matchingSongs pub g)) i \<and>
                 recommendSong w songs b currentPageGenres u
                   = Some (candidates cur (matchingSongs pub g) ! i)"
    if a: "topGenre gs = Some g \<and> g \<noteq> [] \<and> candidates cur (matchingSongs pub g) \<noteq> []" for g
  proof -
    from a obtain i where i: "firstHighest (songScore gs ns) (candidates cur (matchingSongs pub g)) i"
      and best: "bestSong gs ns cur (matchingSongs pub g) = Some (candidates cur (matchingSongs pub g) ! i)"
      using bestSong_firstHighest [OF nn(1,3), of cur "matchingSongs pub g"] by blast
    from a best have "recommendSong w songs b currentPageGenres u
        = Some (candidates cur (matchingSongs pub g) ! i)"
      unfolding gs_def ns_def cur_def pub_def by (intro recommendSong_best) simp_all
    with i show ?thesis by blast
  qed
  have first: "\<exists>i. firstHighest (songScore gs1 ns) (matchingSongs pub g) i \<and>
                 recommendSongFirst songs b currentPageGenres u = Some (matchingSongs pub g ! i)"
    if a: "topGenre gs1 = Some g \<and> g \<noteq> [] \<and> matchingSongs pub g \<noteq> []" for g
  proof -
    from a obtain i where i: "firstHighest (songScore gs1 ns) (matchingSongs pub g) i"
      and best: "bestSong gs1 ns None (matchingSongs pub g) = Some (matchingSongs pub g ! i)"
      using bestSong_firstHighest [OF nn(2,3), of None "matchingSongs pub g"]
      by (auto simp: candidates_None)
    from a best have "recommendSongFirst songs b currentPageGenres u = Some (matchingSongs pub g ! i)"
      unfolding gs1_def ns_def pub_def by (intro recommendSongFirst_best) simp_all
    with i show ?thesis by blast
  qed
  have total: "songScore gs ns s = sum_list (map (orZero gs) (tagsOf (genres s)))
                          + sum_list (map (orZero ns) (tagsOf (spiritualNeeds s)))" for s
    by (rule songScore_sum)
  from later first total show ?thesis by blast
qed

text \<open>
  Two clicks on Song H: Song H and its live version both reach the total 6, and the one
  that comes first in the catalog is returned.
\<close>

theorem best_candidate_has_highest_total_witness:
  "wfBehavior hopeFan \<and>
   topGenre (genreScores (sameTarget onHome) (publishedSongs [songA, songHope, songHopeLive])
              hopeFan []) = Some ''hope'' \<and>
   candidates (getCurrentSong onHome [songA, songHope, songHopeLive])
      (matchingSongs (publishedSongs [songA, songHope, songHopeLive]) ''hope'')
     = [songHope, songHopeLive] \<and>
   map (songScore (genreScores (sameTarget onHome) (publishedSongs [songA, songHope, songHopeLive])
                     hopeFan [])
                  (needScores (publishedSongs [songA, songHope, songHopeLive]) hopeFan))
       [songHope, songHopeLive] = [6, 6] \<and>
   recommendSong onHome [songA, songHope, songHopeLive] hopeFan [] (1 / 2) = Some songHope \<and>
   recommendSongFirst [songA, songHope, songHopeLive] hopeFan [] (1 / 2) = Some songHope \<and>
   (\<exists>i. firstHighest
          (songScore (genreScores (sameTarget onHome) (publishedSongs [songA, songHope, songHopeLive])
                        hopeFan [])
                     (needScores (publishedSongs [songA, songHope, songHopeLive]) hopeFan))
          [songHope, songHopeLive] i \<and>
        recommendSong onHome [songA, songHope, songHopeLive] hopeFan [] (1 / 2)
          = Some ([songHope, songHopeLive] ! i))"
proof -
  have wf: "wfBehavior hopeFan"
    by (simp add: wfBehavior_def nonNegative_def hopeFan_def)
  have top: "topGenre (genreScores (sameTarget onHome) (publishedSongs [songA, songHope, songHopeLive])
              hopeFan []) = Some ''hope''"
    by code_simp
  have cands: "candidates (getCurrentSong onHome [songA, songHope, songHopeLive])
      (matchingSongs (publishedSongs [songA, songHope, songHopeLive]) ''hope'')
     = [songHope, songHopeLive]"
    by code_simp
  have totals: "map (songScore (genreScores (sameTarget onHome)
                       (publishedSongs [songA, songHope, songHopeLive]) hopeFan [])
                  (needScores (publishedSongs [songA, songHope, songHopeLive]) hopeFan))
       [songHope, songHopeLive] = [6, 6]"
    by code_simp
  have res: "recommendSong onHome [songA, songHope, songHopeLive] hopeFan [] (1 / 2) = Some songHope"
    "recommendSongFirst [songA, songHope, songHopeLive] hopeFan [] (1 / 2) = Some songHope"
    by code_simp+
  from best_candidate_has_highest_total [OF wf, of onHome "[songA, songHope, songHopeLive]" "[]" "1 / 2",
      THEN conjunct1, rule_format, of "''hope''"] top cands
  have "\<exists>i. firstHighest
          (songScore (genreScores (sameTarget onHome) (publishedSongs [songA, songHope, songHopeLive])
                        hopeFan [])
                     (needScores (publishedSongs [songA, songHope, songHopeLive]) hopeFan))
          [songHope, songHopeLive] i \<and>
        recommendSong onHome [songA, songHope, songHopeLive] hopeFan [] (1 / 2)
          = Some ([songHope, songHopeLive] ! i)"
    by simp
  with wf top cands totals res show ?thesis by simp
qed

text \<open>
  The claim as first stated fails in two ways. After two clicks on a published song with
  an empty genre string the loop for the top genre ends with the empty string, Song E is
  the one matching song and the one candidate, and yet both variants go to the random
  fallback over the published songs, which here draws Song B. And on the page of Song A,
  with Song A the one matching song, the later variant has no candidate and returns
  \<^verbatim>\<open>null\<close>.
\<close>

theorem best_candidate_empty_top_genre_counterexample:
  "wfBehavior emptyTagFan \<and>
   tagsOf (genres songEmpty) = [[]] \<and>
   genreScores (sameTarget onHome) (publishedSongs [songEmpty, songB]) emptyTagFan []
     = [([], 4)] \<and>
   topGenre (genreScores (sameTarget onHome) (publishedSongs [songEmpty, songB]) emptyTagFan [])
     = Some [] \<and>
   matchingSongs (publishedSongs [songEmpty, songB]) [] = [songEmpty] \<and>
   getCurrentSong onHome [songEmpty, songB] = None \<and>
   candidates None [songEmpty] = [songEmpty] \<and>
   recommendSong onHome [songEmpty, songB] emptyTagFan [] (1 / 2) = Some songB \<and>
   recommendSongFirst [songEmpty, songB] emptyTagFan [] (1 / 2) = Some songB \<and>
   songB \<noteq> songEmpty \<and>
   wfBehavior firstVisit \<and>
   topGenre (genreScores (sameTarget onSongA) (publishedSongs [songA, songB]) firstVisit
              [''praise'']) = Some ''praise'' \<and>
   matchingSongs (publishedSongs [songA, songB]) ''praise'' = [songA] \<and>
   candidates (getCurrentSong onSongA [songA, songB]) [songA] = [] \<and>
   recommendSong onSongA [songA, songB] firstVisit [''praise''] (1 / 2) = None"
  by code_simp

section \<open>The top genre\<close>

lemma topGenre_firstHighest:
  assumes "nonNegative gs" and "gs \<noteq> []"
  shows "\<exists>i. firstHighest snd gs i \<and> topGenre gs = Some (fst (gs ! i))"
  using firstMax_fold_nonneg [of gs snd fst] assms
  by (simp add: topGenre_fold nonNegative_def list_all_iff)

lemma arrayGet_member: "arrayGet xs i = Some x \<Longrightarrow> x \<in> set xs"
  by (auto simp: arrayGet_def split: if_splits)

lemma recommendSong_matching_path:
  assumes "topGenre (genreScores (sameTarget w) (publishedSongs songs) b currentPageGenres) = Some g"
    and "g \<noteq> []" and "matchingSongs (publishedSongs songs) g \<noteq> []"
    and "recommendSong w songs b currentPageGenres u = Some s"
  shows "s \<in> set (matchingSongs (publishedSongs songs) g)"
proof (cases "bestSong (genreScores (sameTarget w) (publishedSongs songs) b currentPageGenres)
           (needScores (publishedSongs songs) b) (getCurrentSong w songs)
           (matchingSongs (publishedSongs songs) g)")
  case None
  with assms have "pickRandomSong (matchingSongs (publishedSongs songs) g)
      (getCurrentSong w songs) u = Some s"
    by (simp add: recommendSong_def Let_def)
  then show ?thesis by (simp add: pickRandomSong_Some)
next
  case (Some s')
  with assms have "s' = s"
    by (simp add: recommendSong_def Let_def)
  with bestSong_member [OF Some] show ?thesis by simp
qed

lemma recommendSongFirst_matching_path:
  assumes "topGenre (genreScores sameUrl (publishedSongs songs) b currentPageGenres) = Some g"
    and "g \<noteq> []" and "matchingSongs (publishedSongs songs) g \<noteq> []"
    and "recommendSongFirst songs b currentPageGenres u = Some s"
  shows "s \<in> set (matchingSongs (publishedSongs songs) g)"
proof (cases "bestSong (genreScores sameUrl (publishedSongs songs) b currentPageGenres)
           (needScores (publishedSongs songs) b) None
           (matchingSongs (publishedSongs songs) g)")
  case None
  with assms have "arrayGet (matchingSongs (publishedSongs songs) g)
      (randomIndex u (length (matchingSongs (publishedSongs songs) g))) = Some s"
    by (simp add: recommendSongFirst_def Let_def)
  then show ?thesis by (rule arrayGet_member)
next
  case (Some s')
  with assms have "s' = s"
    by (simp add: recommendSongFirst_def Let_def)
  with bestSong_member [OF Some] show ?thesis by simp
qed

text \<open>
  Claim C2. For the \<^verbatim>\<open>genreScores\<close> object built from a behaviour record without negative
  counts (its keys are distinct): when it is not empty, the top genre is the key of the
  first entry, in the enumeration order of the object, whose score is the highest. When a
  song is returned after a non-empty top genre with at least one matching song, the genre
  tags of that song include the top genre. When the object is empty, the result is that
  of the random fallback over the published songs. All of this holds in both variants.
\<close>

theorem top_genre_is_first_highest:
  fixes w songs b currentPageGenres u
  defines "pub \<equiv> publishedSongs songs"
  defines "gs \<equiv> genreScores (sameTarget w) pub b currentPageGenres"
  defines "gs1 \<equiv> genreScores sameUrl pub b currentPageGenres"
  assumes "wfBehavior b"
  shows "distinct (map fst gs) \<and> distinct (map fst gs1) \<and>
         (gs \<noteq> [] \<longrightarrow> (\<exists>i. firstHighest snd gs i \<and> topGenre gs = Some (fst (gs ! i)))) \<and>
         (gs1 \<noteq> [] \<longrightarrow> (\<exists>i. firstHighest snd gs1 i \<and> topGenre gs1 = Some (fst (gs1 ! i)))) \<and>
         (\<forall>g s. topGenre gs = Some g \<and> g \<noteq> [] \<and> matchingSongs pub g \<noteq> [] \<and>
                recommendSong w songs b currentPageGenres u = Some s
                \<longrightarrow> g \<in> set (tagsOf (genres s))) \<and>
         (\<forall>g s. topGenre gs1 = Some g \<and> g \<noteq> [] \<and> matchingSongs pub g \<noteq> [] \<and>
                recommendSongFirst songs b currentPageGenres u = Some s
                \<longrightarrow> g \<in> set (tagsOf (genres s))) \<and>
         (gs = [] \<longrightarrow> recommendSong w songs b currentPageGenres u
                        = pickRandomSong pub (getCurrentSong w songs) u) \<and>
         (gs1 = [] \<longrightarrow> recommendSongFirst songs b currentPageGenres u
                         = arrayGet pub (randomIndex u (length pub)))"
proof -
  have nn: "nonNegative gs" "nonNegative gs1"
    using \<open>wfBehavior b\<close> by (simp_all add: gs_def gs1_def nonNegative_genreScores)
  have d: "distinct (map fst gs)" "distinct (map fst gs1)"
    by (simp_all add: gs_def gs1_def distinct_genreScores)
  have t: "gs \<noteq> [] \<longrightarrow> (\<exists>i. firstHighest snd gs i \<and> topGenre gs = Some (fst (gs ! i)))"
    "gs1 \<noteq> [] \<longrightarrow> (\<exists>i. firstHighest snd gs1 i \<and> topGenre gs1 = Some (fst (gs1 ! i)))"
    using nn by (simp_all add: topGenre_firstHighest)
  have m: "g \<in> set (tagsOf (genres s))"
    if "topGenre gs = Some g \<and> g \<noteq> [] \<and> matchingSongs pub g \<noteq> [] \<and>
        recommendSong w songs b currentPageGenres u = Some s" for g s
  proof -
    from that have "s \<in> set (matchingSongs pub g)"
      unfolding gs_def pub_def by (intro recommendSong_matching_path [of w songs b currentPageGenres g u]) simp_all
    then show ?thesis by (simp add: matchingSongs_def)
  qed
  have m1: "g \<in> set (tagsOf (genres s))"
    if "topGenre gs1 = Some g \<and> g \<noteq> [] \<and> matchingSongs pub g \<noteq> [] \<and>
        recommendSongFirst songs b currentPageGenres u = Some s" for g s
  proof -
    from that have "s \<in> set (matchingSongs pub g)"
      unfolding gs1_def pub_def by (intro recommendSongFirst_matching_path [of songs b currentPageGenres g u]) simp_all
    then show ?thesis by (simp add: matchingSongs_def)
  qed
  have e: "gs = [] \<longrightarrow> recommendSong w songs b currentPageGenres u
                        = pickRandomSong pub (getCurrentSong w songs) u"
    by (simp add: gs_def pub_def recommendSong_def Let_def topGenre_Nil)
  have e1: "gs1 = [] \<longrightarrow> recommendSongFirst songs b currentPageGenres u
                         = arrayGet pub (randomIndex u (length pub))"
    by (simp add: gs1_def pub_def recommendSongFirst_def Let_def topGenre_Nil)
  from d t m m1 e e1 show ?thesis by blast
qed

text \<open>
  \<^verbatim>\<open>praise\<close> and \<^verbatim>\<open>worship\<close> tie at 3 and \<^verbatim>\<open>praise\<close>, created first, is the top genre;
  the song returned is tagged with it. A first visit builds no score at all.
\<close>

theorem top_genre_is_first_highest_witness:
  "wfBehavior enoughVisits \<and>
   genreScores (sameTarget onHome) (publishedSongs [songDraft, songA, songB]) enoughVisits []
     = [(''praise'', 3), (''worship'', 3), (''hope'', 2)] \<and>
   firstHighest snd [(''praise'', 3), (''worship'', 3), (''hope'', 2)] 0 \<and>
   topGenre [(''praise'', 3), (''worship'', 3), (''hope'', 2)] = Some ''praise'' \<and>
   matchingSongs (publishedSongs [songDraft, songA, songB]) ''praise'' = [songA] \<and>
   recommendSong onHome [songDraft, songA, songB] enoughVisits [] (1 / 2) = Some songA \<and>
   ''praise'' \<in> set (tagsOf (genres songA)) \<and>
   genreScores (sameTarget onHome) (publishedSongs [songDraft, songA, songB]) firstVisit [] = [] \<and>
   recommendSong onHome [songDraft, songA, songB] firstVisit [] (1 / 2)
     = pickRandomSong (publishedSongs [songDraft, songA, songB])
         (getCurrentSong onHome [songDraft, songA, songB]) (1 / 2)"
proof -
  have wf: "wfBehavior enoughVisits" "wfBehavior firstVisit"
    by (simp_all add: wfBehavior_def nonNegative_def enoughVisits_def firstVisit_def)
  have gs: "genreScores (sameTarget onHome) (publishedSongs [songDraft, songA, songB]) enoughVisits []
     = [(''praise'', 3), (''worship'', 3), (''hope'', 2)]"
    by code_simp
  have fh: "firstHighest snd [(''praise'', 3 :: int), (''worship'', 3), (''hope'', 2)] 0"
    by (simp add: firstHighest_def)
  have top: "topGenre [(''praise'', 3), (''worship'', 3), (''hope'', 2)] = Some ''praise''"
    by (simp add: topGenre_def topStep_def)
  have ms: "matchingSongs (publishedSongs [songDraft, songA, songB]) ''praise'' = [songA]"
    by code_simp
  have res: "recommendSong onHome [songDraft, songA, songB] enoughVisits [] (1 / 2) = Some songA"
    by code_simp
  have em: "genreScores (sameTarget onHome) (publishedSongs [songDraft, songA, songB]) firstVisit []
     = []"
    by code_simp
  note one = top_genre_is_first_highest [OF wf(1), of onHome "[songDraft, songA, songB]" "[]" "1 / 2"]
  note two = top_genre_is_first_highest [OF wf(2), of onHome "[songDraft, songA, songB]" "[]" "1 / 2"]
  have "''praise'' \<in> set (tagsOf (genres songA))"
    using one gs top ms res by simp
  moreover have "recommendSong onHome [songDraft, songA, songB] firstVisit [] (1 / 2)
     = pickRandomSong (publishedSongs [songDraft, songA, songB])
         (getCurrentSong onHome [songDraft, songA, songB]) (1 / 2)"
    using two em by simp
  ultimately show ?thesis
    using wf gs fh top ms res em by simp
qed

section \<open>When the loop for the best song finds nothing\<close>

lemma bestSong_None_iff:
  assumes "nonNegative gs" and "nonNegative ns"
  shows "bestSong gs ns cur matching = None \<longleftrightarrow> (\<forall>s \<in> set matching. isCurrent cur s)"
proof
  assume none: "bestSong gs ns cur matching = None"
  have "candidates cur matching = []"
  proof (rule ccontr)
    assume "candidates cur matching \<noteq> []"
    from bestSong_firstHighest [OF assms this] none show False by simp
  qed
  then show "\<forall>s \<in> set matching. isCurrent cur s"
    by (simp add: candidates_def filter_empty_conv)
next
  assume "\<forall>s \<in> set matching. isCurrent cur s"
  then show "bestSong gs ns cur matching = None"
    by (rule bestSong_all_current)
qed

text \<open>
  Claim C10. In the variant that excludes the current song, with a behaviour record
  without negative counts: the total of every song is at least 0 and so above the start
  value \<open>- 1\<close>; the loop yields a song whenever some matching song is not the current
  one; it yields nothing only when every matching song is the current one; and when the
  top genre is present and some matching song is not the current one, the scorer returns
  what the loop yields, without the random fallback.
\<close>

theorem best_loop_misses_only_current_songs:
  fixes w songs b currentPageGenres u
  defines "pub \<equiv> publishedSongs songs"
  defines "gs \<equiv> genreScores (sameTarget w) pub b currentPageGenres"
  defines "ns \<equiv> needScores pub b"
  defines "cur \<equiv> getCurrentSong w songs"
  assumes "wfBehavior b"
  shows "(\<forall>s. - 1 < songScore gs ns s \<and> 0 \<le> songScore gs ns s) \<and>
         (\<forall>matching. (\<exists>s \<in> set matching. \<not> isCurrent cur s)
              \<longrightarrow> (\<exists>s. bestSong gs ns cur matching = Some s)) \<and>
         (\<forall>matching. bestSong gs ns cur matching = None
              \<longrightarrow> (\<forall>s \<in> set matching. isCurrent cur s)) \<and>
         (\<forall>g. topGenre gs = Some g \<and> g \<noteq> [] \<and>
               (\<exists>s \<in> set (matchingSongs pub g). \<not> isCurrent cur s)
              \<longrightarrow> recommendSong w songs b currentPageGenres u
                    = bestSong gs ns cur (matchingSongs pub g))"
proof -
  have nn: "nonNegative gs" "nonNegative ns"
    using \<open>wfBehavior b\<close>
    by (simp_all add: gs_def ns_def nonNegative_genreScores nonNegative_needScores)
  have sc: "- 1 < songScore gs ns s \<and> 0 \<le> songScore gs ns s" for s
    using songScore_nonneg [OF nn, of s] by simp
  have some: "\<exists>s. bestSong gs ns cur matching = Some s"
    if "\<exists>s \<in> set matching. \<not> isCurrent cur s" for matching
    using that bestSong_None_iff [OF nn, of cur matching] by (cases "bestSong gs ns cur matching") auto
  have none: "\<forall>s \<in> set matching. isCurrent cur s"
    if "bestSong gs ns cur matching = None" for matching
    using that bestSong_None_iff [OF nn, of cur matching] by simp
  have rec: "recommendSong w songs b currentPageGenres u = bestSong gs ns cur (matchingSongs pub g)"
    if "topGenre gs = Some g \<and> g \<noteq> [] \<and> (\<exists>s \<in> set (matchingSongs pub g). \<not> isCurrent cur s)" for g
  proof -
    from that some obtain s where s: "bestSong gs ns cur (matchingSongs pub g) = Some s"
      by blast
    from that s have "recommendSong w songs b currentPageGenres u = Some s"
      unfolding gs_def ns_def cur_def pub_def by (intro recommendSong_best) simp_all
    with s show ?thesis by simp
  qed
  from sc some none rec show ?thesis by blast
qed

text \<open>
  On the page of Song A: with the page genre \<^verbatim>\<open>hope\<close> the loop yields Song B; without it
  the one matching song is Song A itself and the loop yields nothing.
\<close>

theorem best_loop_misses_only_current_songs_witness:
  "wfBehavior enoughVisits \<and>
   topGenre (genreScores (sameTarget onSongA) (publishedSongs [songDraft, songA, songB])
               enoughVisits [''hope'']) = Some ''hope'' \<and>
   matchingSongs (publishedSongs [songDraft, songA, songB]) ''hope'' = [songB] \<and>
   getCurrentSong onSongA [songDraft, songA, songB] = Some songA \<and>
   \<not> isCurrent (Some songA) songB \<and>
   bestSong (genreScores (sameTarget onSongA) (publishedSongs [songDraft, songA, songB])
               enoughVisits [''hope''])
            (needScores (publishedSongs [songDraft, songA, songB]) enoughVisits)
            (Some songA) [songB] = Some songB \<and>
   recommendSong onSongA [songDraft, songA, songB] enoughVisits [''hope''] (1 / 2) = Some songB \<and>
   bestSong (genreScores (sameTarget onSongA) (publishedSongs [songDraft, songA, songB])
               enoughVisits [])
            (needScores (publishedSongs [songDraft, songA, songB]) enoughVisits)
            (Some songA) [songA] = None \<and>
   isCurrent (Some songA) songA"
proof -
  have wf: "wfBehavior enoughVisits"
    by (simp add: wfBehavior_def nonNegative_def enoughVisits_def)
  have top: "topGenre (genreScores (sameTarget onSongA) (publishedSongs [songDraft, songA, songB])
               enoughVisits [''hope'']) = Some ''hope''"
    by code_simp
  have ms: "matchingSongs (publishedSongs [songDraft, songA, songB]) ''hope'' = [songB]"
    by code_simp
  have cur: "getCurrentSong onSongA [songDraft, songA, songB] = Some songA"
    by code_simp
  have nc: "\<not> isCurrent (Some songA) songB"
    by (simp add: isCurrent_def songA_def songB_def)
  have best: "bestSong (genreScores (sameTarget onSongA) (publishedSongs [songDraft, songA, songB])
               enoughVisits [''hope''])
            (needScores (publishedSongs [songDraft, songA, songB]) enoughVisits)
            (Some songA) [songB] = Some songB"
    by code_simp
  have none: "bestSong (genreScores (sameTarget onSongA) (publishedSongs [songDraft, songA, songB])
               enoughVisits [])
            (needScores (publishedSongs [songDraft, songA, songB]) enoughVisits)
            (Some songA) [songA] = None"
    by code_simp
  note one = best_loop_misses_only_current_songs [OF wf,
      of onSongA "[songDraft, songA, songB]" "[''hope'']" "1 / 2"]
  note two = best_loop_misses_only_current_songs [OF wf,
      of onSongA "[songDraft, songA, songB]" "[]" "1 / 2"]
  have "recommendSong onSongA [songDraft, songA, songB] enoughVisits [''hope''] (1 / 2) = Some songB"
    using one [THEN conjunct2, THEN conjunct2, THEN conjunct2, rule_format, of "''hope''"]
      top ms cur nc best by simp
  moreover have "isCurrent (Some songA) songA"
    using two [THEN conjunct2, THEN conjunct2, THEN conjunct1, rule_format, of "[songA]" songA]
      cur none by simp
  ultimately show ?thesis
    using wf top ms cur nc best none by simp
qed

end
